theory Spec2Isabelle
  imports Main
begin

section \<open>Python values used by the reader\<close>

text \<open>
  A Python \<open>str\<close> is modelled as a \<open>string\<close>, one \<open>char\<close> per code point, so the model
  covers texts whose code points are below 256; the search, which depends on a code point
  beyond, works on lists of code points. Python integers are \<open>int\<close>.
  An exception that is an instance of \<open>Exception\<close> is a value carrying its message
  \<open>str(e)\<close>; every call into the file system or into an optional library returns
  \<open>exn + 'a\<close>, with \<open>Inl\<close> for a raised exception.
\<close>

datatype exn = Exception string

fun msg :: "exn \<Rightarrow> string" where
  "msg (Exception m) = m"

text \<open>Python's slice index normalisation: a negative index counts from the end, and
  both ends are clamped into \<open>[0, len]\<close>.\<close>

definition clamp_index :: "nat \<Rightarrow> int \<Rightarrow> nat" where
  "clamp_index n i = (if i < 0 then nat (max 0 (int n + i)) else min n (nat i))"

text \<open>\<open>s[i:j]\<close>\<close>

definition slice :: "'a list \<Rightarrow> int \<Rightarrow> int \<Rightarrow> 'a list" where
  "slice s i j =
     (let a = clamp_index (length s) i; b = clamp_index (length s) j
      in take (b - a) (drop a s))"

text \<open>\<open>range(i, stop, step)\<close> as a list, for a step that is not zero
  (Python raises \<open>ValueError\<close> on a zero step; the callers below check it).\<close>

function py_range :: "int \<Rightarrow> int \<Rightarrow> int \<Rightarrow> int list" where
  "py_range i stop step =
     (if 0 < step \<and> i < stop then i # py_range (i + step) stop step
      else if step < 0 \<and> stop < i then i # py_range (i + step) stop step
      else [])"
  by pat_completeness auto
termination
proof (relation "measure (\<lambda>(i, stop, step). if 0 < step then nat (stop - i) else nat (i - stop))")
  show "wf (measure (\<lambda>(i, stop, step). if 0 < step then nat (stop - i) else nat (i - stop)))"
    by simp
next
  fix i stop step :: int
  assume "0 < step \<and> i < stop"
  then show "((i + step, stop, step), (i, stop, step))
        \<in> measure (\<lambda>(i, stop, step). if 0 < step then nat (stop - i) else nat (i - stop))"
    by simp
next
  fix i stop step :: int
  assume "\<not> (0 < step \<and> i < stop)" "step < 0 \<and> stop < i"
  then show "((i + step, stop, step), (i, stop, step))
        \<in> measure (\<lambda>(i, stop, step). if 0 < step then nat (stop - i) else nat (i - stop))"
    by simp
qed

declare py_range.simps [simp del]

section \<open>Paginator\<close>

text \<open>The comprehension \<open>[text[i:i+size] for i in range(0, len(text), size)]\<close>, which the
  source writes out in \<open>_read_txt_pages\<close>, \<open>_read_epub_pages\<close> and \<open>_chunk_text\<close>.\<close>

definition chunks :: "string \<Rightarrow> int \<Rightarrow> string list" where
  "chunks text sz =
     map (\<lambda>i. slice text i (i + sz)) (py_range 0 (int (length text)) sz)"

text \<open>\<open>MainFrame._chunk_text(text, size=3000)\<close> of the library variant; \<open>range\<close> raises
  on a zero step.\<close>

definition chunk_text :: "string \<Rightarrow> int \<Rightarrow> exn + string list" where
  "chunk_text text sz =
     (if sz = 0 then Inl (Exception ''range() arg 3 must not be zero'')
      else Inr (chunks text sz))"

text \<open>\<open>ReaderPanel._read_txt_pages(path)\<close> of the page-view variant. The argument is the
  outcome of opening and reading the file (decoding errors are replaced, so only the
  file system can fail); the exception of a failed read passes through to the caller.\<close>

definition read_txt_pages :: "exn + string \<Rightarrow> exn + string list" where
  "read_txt_pages file =
     (case file of
        Inl e \<Rightarrow> Inl e
      | Inr content \<Rightarrow> (let chunk_size = 3000 in Inr (chunks content chunk_size)))"

section \<open>String methods\<close>

text \<open>\<open>str.isspace\<close> on one character: the white space of Python among the code points
  below 256.\<close>

definition isspace :: "char \<Rightarrow> bool" where
  "isspace c =
     (let n = (of_char c :: nat)
      in (9 \<le> n \<and> n \<le> 13) \<or> (28 \<le> n \<and> n \<le> 32) \<or> n = 133 \<or> n = 160)"

text \<open>\<open>s.strip()\<close>\<close>

definition strip :: "string \<Rightarrow> string" where
  "strip s = rev (dropWhile isspace (rev (dropWhile isspace s)))"

text \<open>\<open>s.lower()\<close>: below 256 the capital letters are \<open>A\<close> to \<open>Z\<close> and 192 to 222
  without the multiplication sign 215, each 32 below its small letter.\<close>

definition lower_char :: "char \<Rightarrow> char" where
  "lower_char c =
     (let n = (of_char c :: nat)
      in if (65 \<le> n \<and> n \<le> 90) \<or> (192 \<le> n \<and> n \<le> 222 \<and> n \<noteq> 215)
         then char_of (n + 32) else c)"

definition lower :: "string \<Rightarrow> string" where
  "lower s = map lower_char s"

text \<open>\<open>s.find(sub, start)\<close> for \<open>start \<ge> 0\<close>: the lowest index \<open>i \<ge> start\<close> with
  \<open>s[i:i+len(sub)] == sub\<close>; \<open>None\<close> stands for Python's \<open>-1\<close>.\<close>

function str_find :: "'a list \<Rightarrow> 'a list \<Rightarrow> nat \<Rightarrow> nat option" where
  "str_find s sub i =
     (if length s < i + length sub then None
      else if take (length sub) (drop i s) = sub then Some i
      else str_find s sub (Suc i))"
  by pat_completeness auto
termination
  by (relation "measure (\<lambda>(s, sub, i). Suc (length s) - i)") auto

declare str_find.simps [simp del]

text \<open>\<open>xs[i]\<close>: an index from \<open>-len(xs)\<close> to \<open>-1\<close> reads from the end, any index
  outside \<open>[-len(xs), len(xs))\<close> raises \<open>IndexError\<close>.\<close>

definition getitem :: "'a list \<Rightarrow> int \<Rightarrow> exn + 'a" where
  "getitem xs i =
     (if 0 \<le> i \<and> i < int (length xs) then Inr (xs ! nat i)
      else if i < 0 \<and> - int (length xs) \<le> i then Inr (xs ! nat (int (length xs) + i))
      else Inl (Exception ''list index out of range''))"

section \<open>Search\<close>

text \<open>The text of a text control and of the search box can hold any code point, and the
  search depends on one beyond 255, so here a \<open>str\<close> is the list of its code points;
  \<open>cps\<close> gives the code points of a string of the model.\<close>

definition cps :: "string \<Rightarrow> nat list" where
  "cps s = map of_char s"

text \<open>\<open>s.lower()\<close> on code points. The lower case of a capital letter below 256 is the
  code point 32 above it. The lower case of U+0130 (304, capital I with dot above) is two
  code points, small i (105) and the combining dot above (775); it is the one code point
  whose lower case is longer than itself. The table stops there: any other code point is
  left as it is.\<close>

definition lower_cp :: "nat \<Rightarrow> nat list" where
  "lower_cp n =
     (if (65 \<le> n \<and> n \<le> 90) \<or> (192 \<le> n \<and> n \<le> 222 \<and> n \<noteq> 215) then [n + 32]
      else if n = 304 then [105, 775]
      else [n])"

definition lower_text :: "nat list \<Rightarrow> nat list" where
  "lower_text s = concat (map lower_cp s)"

text \<open>\<open>ReaderPanel.on_search\<close> of the two single-page variants (the same code in both).
  The arguments are the value of the text control, the value of the search box and the
  insertion point of the text control. \<open>Rejected\<close> is the early return on an empty query;
  \<open>Found p e\<close> moves the insertion point to \<open>p\<close> and selects the text control from \<open>p\<close>
  to \<open>e\<close>; \<open>NotFound\<close> is the message box. The offsets are those found in the
  lower-cased text, and the length is that of the lower-cased query, as in the source.\<close>

datatype search_result = Rejected | Found nat nat | NotFound

definition on_search :: "nat list \<Rightarrow> nat list \<Rightarrow> nat \<Rightarrow> search_result" where
  "on_search text_value query start_pos =
     (if query = [] then Rejected
      else
        let full_text = lower_text text_value;
            query = lower_text query;
            found_pos = str_find full_text query (start_pos + 1);
            found_pos = (if found_pos = None then str_find full_text query 0 else found_pos)
        in case found_pos of Some p \<Rightarrow> Found p (p + length query) | None \<Rightarrow> NotFound)"

section \<open>Speech service\<close>

text \<open>\<open>TTSService\<close>. \<open>engine\<close> says whether \<open>self.engine\<close> is set (\<open>pyttsx3.init()\<close>
  succeeded in the constructor). Two fields record what the service asks of the outside:
  \<open>engine_stops\<close> counts the calls of \<open>self.engine.stop()\<close>, which is taken to return,
  and \<open>threads\<close> lists the texts of the worker threads started so far.\<close>

record tts_service =
  engine :: bool
  is_speaking :: bool
  engine_stops :: nat
  threads :: "string list"

definition tts_init :: "bool \<Rightarrow> tts_service" where
  "tts_init ok = \<lparr>engine = ok, is_speaking = False, engine_stops = 0, threads = []\<rparr>"

text \<open>\<open>TTSService.stop\<close> and \<open>TTSService.speak\<close> of the single-page and page-view
  variants.\<close>

definition stop :: "tts_service \<Rightarrow> tts_service" where
  "stop t =
     (if engine t \<and> is_speaking t
      then t\<lparr>engine_stops := engine_stops t + 1, is_speaking := False\<rparr>
      else t)"

definition speak :: "tts_service \<Rightarrow> string \<Rightarrow> tts_service" where
  "speak t text =
     (if \<not> engine t then t
      else
        let t1 = (if is_speaking t then stop t else t);
            t2 = t1\<lparr>is_speaking := True\<rparr>
        in t2\<lparr>threads := threads t2 @ [text]\<rparr>)"

text \<open>The worker thread. What a call of the thread can raise is either an instance of
  \<open>Exception\<close>, which \<open>except Exception\<close> catches, or an exception outside that class
  (such as \<open>SystemExit\<close>), which passes through; \<open>worker_engine\<close> gives, for the engine
  the thread creates, what each of its three calls raises, if anything.\<close>

datatype raised = Caught exn | Uncaught string

record worker_engine =
  init_raises :: "raised option"
  say_raises :: "string \<Rightarrow> raised option"
  runAndWait_raises :: "raised option"

text \<open>The body of the \<open>try\<close>: \<open>pyttsx3.init()\<close>, \<open>engine.say(text)\<close>,
  \<open>engine.runAndWait()\<close>; the first exception ends it.\<close>

definition synthesize :: "worker_engine \<Rightarrow> string \<Rightarrow> raised option" where
  "synthesize w text =
     (case init_raises w of
        Some r \<Rightarrow> Some r
      | None \<Rightarrow>
          (case say_raises w text of
             Some r \<Rightarrow> Some r
           | None \<Rightarrow> runAndWait_raises w))"

text \<open>\<open>TTSService._speak_thread\<close>: the \<open>except\<close> clause prints the error, the \<open>finally\<close>
  clause resets the flag of the service as it is when the thread ends, also when the
  exception passes through. The result is the service, the lines printed, and the
  message of the exception that leaves the thread, if any.\<close>

definition speak_thread ::
  "tts_service \<Rightarrow> string \<Rightarrow> worker_engine \<Rightarrow> tts_service \<times> string list \<times> string option" where
  "speak_thread t text w =
     (let (printed, passed) =
            (case synthesize w text of
               None \<Rightarrow> ([], None)
             | Some (Caught e) \<Rightarrow> ([''TTS Error: '' @ msg e], None)
             | Some (Uncaught m) \<Rightarrow> ([], Some m))
      in (t\<lparr>is_speaking := False\<rparr>, printed, passed))"

text \<open>\<open>TTSService.stop\<close> and \<open>TTSService.speak\<close> of the library variant: no engine
  check, and \<open>stop\<close> only resets the flag.\<close>

definition stop_lib :: "tts_service \<Rightarrow> tts_service" where
  "stop_lib t = (if is_speaking t then t\<lparr>is_speaking := False\<rparr> else t)"

definition speak_lib :: "tts_service \<Rightarrow> string \<Rightarrow> tts_service" where
  "speak_lib t text =
     (let t1 = (if is_speaking t then stop_lib t else t);
          t2 = t1\<lparr>is_speaking := True\<rparr>
      in t2\<lparr>threads := threads t2 @ [text]\<rparr>)"

section \<open>Format extraction\<close>

text \<open>What loading sees of the outside. \<open>libs\<close> says which of the optional imports
  succeeded. A \<open>source_file\<close> gives the extension and base name of the path (\<open>os.path.splitext\<close>,
  \<open>os.path.basename\<close>) and what each reader gets from it: the decoded text, the pages
  of \<open>PdfReader(path)\<close> with the outcome of \<open>extract_text()\<close> for each, the book of
  \<open>epub.read_epub(path)\<close>. A \<open>book\<close> has the values of its title metadata and its
  manifest items in order; a document item carries the outcome of parsing its body and
  taking the text (\<open>BeautifulSoup(...).get_text()\<close>).\<close>

record libs =
  PdfReader :: bool
  epub :: bool
  BeautifulSoup :: bool

datatype item = Document "exn + string" | Other_item

record book =
  title_meta :: "string list"
  items :: "item list"

record source_file =
  ext :: string
  basename :: string
  as_text :: "exn + string"
  as_pdf :: "exn + (exn + string) list"
  as_epub :: "exn + book"

subsection \<open>Page-view variant\<close>

text \<open>The loop of \<open>_read_pdf_pages\<close> over \<open>reader.pages\<close>, with \<open>pages_text\<close> as its
  accumulator.\<close>

fun pdf_loop :: "string list \<Rightarrow> (exn + string) list \<Rightarrow> exn + string list" where
  "pdf_loop pages_text [] = Inr pages_text"
| "pdf_loop pages_text (Inl e # rest) = Inl e"
| "pdf_loop pages_text (Inr txt # rest) =
     pdf_loop (if strip txt \<noteq> [] then pages_text @ [txt] else pages_text) rest"

text \<open>\<open>ReaderPanel._read_pdf_pages\<close>\<close>

definition read_pdf_pages :: "libs \<Rightarrow> exn + (exn + string) list \<Rightarrow> string list" where
  "read_pdf_pages L doc =
     (if \<not> PdfReader L then [''Library missing: pypdf'']
      else
        case doc of
          Inl e \<Rightarrow> [''Error reading PDF: '' @ msg e]
        | Inr reader_pages \<Rightarrow>
            (case pdf_loop [] reader_pages of
               Inl e \<Rightarrow> [''Error reading PDF: '' @ msg e]
             | Inr pages_text \<Rightarrow>
                 if pages_text \<noteq> [] then pages_text else [''No text found in PDF.'']))"

text \<open>The loop of \<open>_read_epub_pages\<close> over \<open>book.get_items()\<close>.\<close>

fun epub_loop :: "string list \<Rightarrow> item list \<Rightarrow> exn + string list" where
  "epub_loop pages_text [] = Inr pages_text"
| "epub_loop pages_text (Other_item # rest) = epub_loop pages_text rest"
| "epub_loop pages_text (Document (Inl e) # rest) = Inl e"
| "epub_loop pages_text (Document (Inr text) # rest) =
     epub_loop
       (if 100 < length (strip text)
        then (let chunk_size = 3000
              in if chunk_size < int (length text)
                 then pages_text @ chunks text chunk_size
                 else pages_text @ [text])
        else pages_text)
       rest"

text \<open>\<open>ReaderPanel._read_epub_pages\<close>\<close>

definition read_epub_pages :: "libs \<Rightarrow> exn + book \<Rightarrow> string list" where
  "read_epub_pages L doc =
     (if \<not> epub L \<or> \<not> BeautifulSoup L then [''Libraries missing: ebooklib, beautifulsoup4'']
      else
        case doc of
          Inl e \<Rightarrow> [''Error reading EPUB: '' @ msg e]
        | Inr b \<Rightarrow>
            (let pages_text = (if title_meta b \<noteq> [] then [''Title: '' @ hd (title_meta b)] else [])
             in case epub_loop pages_text (items b) of
                  Inl e \<Rightarrow> [''Error reading EPUB: '' @ msg e]
                | Inr pages_text \<Rightarrow> pages_text))"

text \<open>The dispatch on the extension in \<open>_load_file\<close>; only reading a text file can
  raise here, the other readers return a diagnostic page.\<close>

definition read_pages :: "libs \<Rightarrow> source_file \<Rightarrow> exn + string list" where
  "read_pages L f =
     (let e = lower (ext f)
      in if e = ''.txt'' then read_txt_pages (as_text f)
         else if e = ''.pdf'' then Inr (read_pdf_pages L (as_pdf f))
         else if e = ''.epub'' then Inr (read_epub_pages L (as_epub f))
         else Inr [''Unsupported file format.''])"

subsection \<open>Library variant\<close>

text \<open>The comprehension of \<open>MainFrame._read_pdf\<close>:
  \<open>[p.extract_text() for p in reader.pages if p.extract_text().strip()]\<close>.\<close>

fun pdf_texts :: "(exn + string) list \<Rightarrow> exn + string list" where
  "pdf_texts [] = Inr []"
| "pdf_texts (Inl e # rest) = Inl e"
| "pdf_texts (Inr txt # rest) =
     (case pdf_texts rest of
        Inl e \<Rightarrow> Inl e
      | Inr ps \<Rightarrow> Inr (if strip txt \<noteq> [] then txt # ps else ps))"

text \<open>\<open>MainFrame._read_pdf\<close>\<close>

definition read_pdf :: "libs \<Rightarrow> exn + (exn + string) list \<Rightarrow> string list" where
  "read_pdf L doc =
     (if \<not> PdfReader L then [''Please install pypdf'']
      else
        case doc of
          Inl e \<Rightarrow> [msg e]
        | Inr reader_pages \<Rightarrow>
            (case pdf_texts reader_pages of Inl e \<Rightarrow> [msg e] | Inr ps \<Rightarrow> ps))"

text \<open>The loop of \<open>MainFrame._read_epub\<close>.\<close>

fun epub_loop_lib :: "string list \<Rightarrow> item list \<Rightarrow> exn + string list" where
  "epub_loop_lib ps [] = Inr ps"
| "epub_loop_lib ps (Other_item # rest) = epub_loop_lib ps rest"
| "epub_loop_lib ps (Document (Inl e) # rest) = Inl e"
| "epub_loop_lib ps (Document (Inr text) # rest) =
     epub_loop_lib (if 200 < length text then ps @ [text] else ps) rest"

text \<open>\<open>MainFrame._read_epub\<close>\<close>

definition read_epub :: "libs \<Rightarrow> exn + book \<Rightarrow> string list" where
  "read_epub L doc =
     (if \<not> epub L then [''Please install ebooklib beautifulsoup4'']
      else
        case doc of
          Inl e \<Rightarrow> [msg e]
        | Inr b \<Rightarrow>
            (case epub_loop_lib [] (items b) of Inl e \<Rightarrow> [msg e] | Inr ps \<Rightarrow> ps))"

text \<open>\<open>MainFrame.extract_text\<close>: an exception of reading the text file is caught here;
  an extension that is none of the three falls through to the last line.\<close>

definition extract_text :: "libs \<Rightarrow> source_file \<Rightarrow> string list" where
  "extract_text L f =
     (let e = lower (ext f)
      in if e = ''.txt'' then
           (case as_text f of
              Inl ex \<Rightarrow> [''Error: '' @ msg ex]
            | Inr content \<Rightarrow>
                (case chunk_text content 3000 of
                   Inl ex \<Rightarrow> [''Error: '' @ msg ex]
                 | Inr ps \<Rightarrow> ps))
         else if e = ''.pdf'' then read_pdf L (as_pdf f)
         else if e = ''.epub'' then read_epub L (as_epub f)
         else [''Could not read file.''])"

section \<open>Reader session\<close>

text \<open>\<open>ReaderPanel\<close>: the speech service it shares with the frame, the pages, the
  index of the current page, and what its widgets show: the value of the text control,
  the two numbers of the page label (\<open>"i / total"\<close>), whether each navigation button is
  enabled, the title label. The slider exists in the library variant only.\<close>

record reader_panel =
  tts_service :: tts_service
  pages :: "string list"
  current_page_idx :: int
  text_ctrl :: string
  page_lbl :: "int \<times> int"
  prev_btn :: bool
  next_btn :: bool
  title_lbl :: string
  slider_max :: int
  slider_value :: int

subsection \<open>Page-view variant\<close>

text \<open>\<open>ReaderPanel.__init__\<close>: no pages, both buttons disabled.\<close>

definition new_panel :: "tts_service \<Rightarrow> reader_panel" where
  "new_panel t =
     \<lparr>tts_service = t, pages = [], current_page_idx = 0, text_ctrl = [],
      page_lbl = (0, 0), prev_btn = False, next_btn = False,
      title_lbl = ''No Book Loaded'', slider_max = 0, slider_value = 0\<rparr>"

text \<open>\<open>ReaderPanel._update_display\<close>: the index is clamped into the pages before the
  page is read, so the read is in range.\<close>

definition update_display :: "reader_panel \<Rightarrow> reader_panel" where
  "update_display p =
     (let total = int (length (pages p))
      in if total = 0
         then p\<lparr>text_ctrl := [], page_lbl := (0, 0), prev_btn := False, next_btn := False\<rparr>
         else
           let idx = max 0 (min (current_page_idx p) (total - 1));
               content = pages p ! nat idx
           in p\<lparr>current_page_idx := idx, text_ctrl := content,
                page_lbl := (idx + 1, total),
                prev_btn := (0 < idx), next_btn := (idx < total - 1)\<rparr>)"

text \<open>\<open>ReaderPanel.on_prev_page\<close> and \<open>ReaderPanel.on_next_page\<close>\<close>

definition on_prev_page :: "reader_panel \<Rightarrow> reader_panel" where
  "on_prev_page p =
     (if 0 < current_page_idx p
      then update_display
             (p\<lparr>current_page_idx := current_page_idx p - 1,
                tts_service := stop (tts_service p)\<rparr>)
      else p)"

definition on_next_page :: "reader_panel \<Rightarrow> reader_panel" where
  "on_next_page p =
     (if current_page_idx p < int (length (pages p)) - 1
      then update_display
             (p\<lparr>current_page_idx := current_page_idx p + 1,
                tts_service := stop (tts_service p)\<rparr>)
      else p)"

text \<open>\<open>ReaderPanel._load_file\<close>: an empty result is replaced by the placeholder page;
  an exception gives a single page with its message and leaves the title as it was.\<close>

definition placeholder :: string where
  "placeholder = ''(Empty Book or Extraction Failed)''"

definition load_file :: "libs \<Rightarrow> source_file \<Rightarrow> reader_panel \<Rightarrow> reader_panel" where
  "load_file L f p =
     (case read_pages L f of
        Inr new_pages \<Rightarrow>
          (let new_pages = (if new_pages = [] then [placeholder] else new_pages)
           in update_display
                (p\<lparr>pages := new_pages, current_page_idx := 0, title_lbl := basename f\<rparr>))
      | Inl e \<Rightarrow>
          update_display
            (p\<lparr>pages := [''Error loading file: '' @ msg e], current_page_idx := 0\<rparr>))"

text \<open>The navigability flags, as \<open>_update_display\<close> computes them for the buttons and as
  the two handlers test them, and the current page \<open>self.pages[self.current_page_idx]\<close>.\<close>

definition has_previous :: "reader_panel \<Rightarrow> bool" where
  "has_previous p = (0 < current_page_idx p)"

definition has_next :: "reader_panel \<Rightarrow> bool" where
  "has_next p = (current_page_idx p < int (length (pages p)) - 1)"

definition current_page :: "reader_panel \<Rightarrow> exn + string" where
  "current_page p = getitem (pages p) (current_page_idx p)"

text \<open>Pressing Next until \<open>has_next\<close> is false, and Prev until \<open>has_previous\<close> is false:
  the panels passed through, the first one included.\<close>

function next_to_end :: "reader_panel \<Rightarrow> reader_panel list" where
  "next_to_end p = p # (if has_next p then next_to_end (on_next_page p) else [])"
  by pat_completeness auto
termination
  by (relation "measure (\<lambda>p. nat (int (length (pages p)) - 1 - current_page_idx p))")
     (auto simp: has_next_def on_next_page_def update_display_def Let_def)

function prev_to_start :: "reader_panel \<Rightarrow> reader_panel list" where
  "prev_to_start p = p # (if has_previous p then prev_to_start (on_prev_page p) else [])"
  by pat_completeness auto
termination
  by (relation "measure (\<lambda>p. nat (current_page_idx p))")
     (auto simp: has_previous_def on_prev_page_def update_display_def Let_def)

declare next_to_end.simps [simp del] prev_to_start.simps [simp del]

subsection \<open>Library variant\<close>

text \<open>\<open>ReaderPanel.__init__\<close>: the buttons start enabled, the slider runs from 0 to 100.\<close>

definition new_panel_lib :: "tts_service \<Rightarrow> reader_panel" where
  "new_panel_lib t =
     \<lparr>tts_service = t, pages = [], current_page_idx = 0, text_ctrl = [],
      page_lbl = (0, 0), prev_btn = True, next_btn = True,
      title_lbl = ''No Book'', slider_max = 100, slider_value = 0\<rparr>"

text \<open>\<open>ReaderPanel.update_display\<close>: nothing happens without pages; the index is not
  clamped, so the read of the page can raise, which ends the handler with the panel as
  it is then.\<close>

definition update_display_lib :: "reader_panel \<Rightarrow> exn option \<times> reader_panel" where
  "update_display_lib p =
     (if pages p = [] then (None, p)
      else
        case getitem (pages p) (current_page_idx p) of
          Inl e \<Rightarrow> (Some e, p)
        | Inr content \<Rightarrow>
            (None,
             p\<lparr>text_ctrl := content,
               page_lbl := (current_page_idx p + 1, int (length (pages p))),
               slider_value := current_page_idx p,
               prev_btn := (0 < current_page_idx p),
               next_btn := (current_page_idx p < int (length (pages p)) - 1)\<rparr>))"

text \<open>\<open>ReaderPanel.load_book\<close>, with the base name of the path and the pages.\<close>

definition load_book :: "string \<Rightarrow> string list \<Rightarrow> reader_panel \<Rightarrow> exn option \<times> reader_panel" where
  "load_book name ps p =
     update_display_lib
       (p\<lparr>pages := ps, current_page_idx := 0, title_lbl := name,
          slider_max := (if ps \<noteq> [] then int (length ps) - 1 else 0)\<rparr>)"

text \<open>\<open>ReaderPanel.on_prev\<close>, \<open>ReaderPanel.on_next\<close> and \<open>ReaderPanel.on_read_click\<close>\<close>

definition on_prev :: "reader_panel \<Rightarrow> exn option \<times> reader_panel" where
  "on_prev p =
     (if 0 < current_page_idx p
      then update_display_lib (p\<lparr>current_page_idx := current_page_idx p - 1\<rparr>)
      else (None, p))"

definition on_next :: "reader_panel \<Rightarrow> exn option \<times> reader_panel" where
  "on_next p =
     (if current_page_idx p < int (length (pages p)) - 1
      then update_display_lib (p\<lparr>current_page_idx := current_page_idx p + 1\<rparr>)
      else (None, p))"

definition on_read_click :: "reader_panel \<Rightarrow> exn option \<times> reader_panel" where
  "on_read_click p =
     (if pages p \<noteq> []
      then (case getitem (pages p) (current_page_idx p) of
              Inl e \<Rightarrow> (Some e, p)
            | Inr content \<Rightarrow> (None, p\<lparr>tts_service := speak_lib (tts_service p) content\<rparr>))
      else (None, p))"

text \<open>\<open>MainFrame.open_book\<close>: extract the pages and load them into the reader panel.\<close>

definition open_book :: "libs \<Rightarrow> source_file \<Rightarrow> reader_panel \<Rightarrow> exn option \<times> reader_panel" where
  "open_book L f p = load_book (basename f) (extract_text L f) p"

section \<open>Notions used in the statements\<close>

text \<open>\<open>sub\<close> occurs in \<open>s\<close> at offset \<open>p\<close>.\<close>

definition occurs_at :: "'a list \<Rightarrow> 'a list \<Rightarrow> nat \<Rightarrow> bool" where
  "occurs_at s sub p = (p + length sub \<le> length s \<and> take (length sub) (drop p s) = sub)"

text \<open>The speech service never reports speaking without an engine: \<open>speak\<close> returns
  before setting the flag when there is none.\<close>

definition tts_wf :: "tts_service \<Rightarrow> bool" where
  "tts_wf t = (is_speaking t \<longrightarrow> engine t)"

text \<open>The index of a panel points into its pages.\<close>

definition valid_panel :: "reader_panel \<Rightarrow> bool" where
  "valid_panel p =
     (pages p \<noteq> [] \<and> 0 \<le> current_page_idx p \<and> current_page_idx p < int (length (pages p)))"

text \<open>The texts of the document items of a book that parse, in manifest order, and
  whether some document item raises.\<close>

fun document_texts :: "item list \<Rightarrow> string list" where
  "document_texts [] = []"
| "document_texts (Document (Inr text) # rest) = text # document_texts rest"
| "document_texts (_ # rest) = document_texts rest"

fun item_raises :: "item \<Rightarrow> bool" where
  "item_raises (Document (Inl e)) = True"
| "item_raises _ = False"

text \<open>Example inputs: every optional library installed, and a file of each format.\<close>

definition all_libs :: libs where
  "all_libs = \<lparr>PdfReader = True, epub = True, BeautifulSoup = True\<rparr>"

definition pdf_file :: "(exn + string) list \<Rightarrow> source_file" where
  "pdf_file reader_pages =
     \<lparr>ext = ''.PDF'', basename = ''book.PDF'', as_text = Inr [],
      as_pdf = Inr reader_pages, as_epub = Inl (Exception ''not an EPUB file'')\<rparr>"

definition epub_file :: "book \<Rightarrow> source_file" where
  "epub_file b =
     \<lparr>ext = ''.epub'', basename = ''book.epub'', as_text = Inr [],
      as_pdf = Inl (Exception ''not a PDF file''), as_epub = Inr b\<rparr>"

definition txt_file :: "string \<Rightarrow> source_file" where
  "txt_file content =
     \<lparr>ext = ''.txt'', basename = ''book.txt'', as_text = Inr content,
      as_pdf = Inl (Exception ''not a PDF file''), as_epub = Inl (Exception ''not an EPUB file'')\<rparr>"

text \<open>Example sessions: a PDF of three pages loaded into the page-view panel, the same
  panel while its first page is read aloud, and a PDF of two pages opened in the library
  variant with Listen pressed.\<close>

definition three_pages :: reader_panel where
  "three_pages =
     load_file all_libs (pdf_file [Inr ''one'', Inr ''two'', Inr ''three''])
       (new_panel (tts_init True))"

definition three_pages_reading :: reader_panel where
  "three_pages_reading =
     three_pages\<lparr>tts_service := speak (tts_service three_pages) ''one''\<rparr>"

definition lib_reading :: reader_panel where
  "lib_reading =
     snd (on_read_click
            (snd (open_book all_libs (pdf_file [Inr ''one'', Inr ''two''])
                    (new_panel_lib (tts_init True)))))"

text \<open>An example book: a title and three document sections of 150, 5 and 3001
  characters around a style sheet.\<close>

definition example_book :: book where
  "example_book =
     \<lparr>title_meta = [''T''],
      items = [Document (Inr (replicate 150 (CHR ''a''))), Other_item,
               Document (Inr ''short''), Document (Inr (replicate 3001 (CHR ''b'')))]\<rparr>"

text \<open>An example text for the search: the word Istanbul written with the Turkish capital
  I with dot above, U+0130, followed by \<open>stanbul\<close>.\<close>

definition dotted_istanbul :: "nat list" where
  "dotted_istanbul = 304 # cps ''stanbul''"

section \<open>Lossless chunking\<close>

lemma slice_window:
  assumes "0 \<le> i" "0 < c"
  shows "slice t i (i + c) = take (nat c) (drop (nat i) t)"
proof -
  have a: "clamp_index (length t) i = min (length t) (nat i)"
    using assms by (simp add: clamp_index_def)
  have b: "clamp_index (length t) (i + c) = min (length t) (nat i + nat c)"
    using assms by (simp add: clamp_index_def nat_add_distrib)
  show ?thesis
  proof (cases "nat i \<le> length t")
    case True
    then have "take (min (length t) (nat i + nat c) - nat i) (drop (nat i) t)
               = take (nat c) (drop (nat i) t)"
      by (cases "nat i + nat c \<le> length t") (simp_all add: min_def)
    with True show ?thesis by (simp add: slice_def a b min_def)
  next
    case False
    then show ?thesis by (simp add: slice_def a b)
  qed
qed

lemma concat_windows:
  assumes "0 < c" "0 \<le> i"
  shows "concat (map (\<lambda>j. slice t j (j + c)) (py_range i (int (length t)) c))
         = drop (nat i) t"
  using assms
proof (induction i "int (length t)" c rule: py_range.induct)
  case (1 i step)
  show ?case
  proof (cases "i < int (length t)")
    case True
    have ih: "concat (map (\<lambda>j. slice t j (j + step)) (py_range (i + step) (int (length t)) step))
              = drop (nat (i + step)) t"
      using 1 True by simp
    have "nat (i + step) = nat step + nat i"
      using 1(3,4) by (simp add: nat_add_distrib)
    then have "drop (nat (i + step)) t = drop (nat step) (drop (nat i) t)"
      by simp
    then have "slice t i (i + step) @ drop (nat (i + step)) t = drop (nat i) t"
      using 1(3,4) by (simp only: slice_window append_take_drop_id)
    moreover have "py_range i (int (length t)) step
                   = i # py_range (i + step) (int (length t)) step"
      using True 1(3) by (subst py_range.simps) simp
    ultimately show ?thesis
      using ih by simp
  next
    case False
    then have "length t \<le> nat i" by linarith
    with False 1(3) show ?thesis
      by (subst py_range.simps) simp
  qed
qed

lemma windows_full:
  assumes "0 < c" "0 \<le> i"
  shows "\<forall>p \<in> set (butlast (map (\<lambda>j. slice t j (j + c)) (py_range i (int (length t)) c))).
           length p = nat c"
  using assms
proof (induction i "int (length t)" c rule: py_range.induct)
  case (1 i step)
  show ?case
  proof (cases "i < int (length t)")
    case True
    note ih = 1(1)[OF conjI[OF 1(3) True] 1(3)]
    show ?thesis
    proof (cases "i + step < int (length t)")
      case more: True
      then have "nat i + nat step \<le> length t" using 1(3,4) by linarith
      then have "length (slice t i (i + step)) = nat step"
        using 1(3,4) by (simp add: slice_window)
      with ih 1(3,4) True show ?thesis
        by (subst py_range.simps) (auto simp: butlast.simps split: if_splits)
    next
      case False
      then have "py_range (i + step) (int (length t)) step = []"
        using 1(3) by (subst py_range.simps) simp
      with True 1(3) show ?thesis
        by (subst py_range.simps) simp
    qed
  next
    case False
    with 1(3) show ?thesis
      by (subst py_range.simps) simp
  qed
qed

lemma chunks_concat: "0 < c \<Longrightarrow> concat (chunks t c) = t"
  using concat_windows[of c 0 t] by (simp add: chunks_def)

lemma chunks_full: "0 < c \<Longrightarrow> p \<in> set (butlast (chunks t c)) \<Longrightarrow> length p = nat c"
  using windows_full[of c 0 t] by (simp add: chunks_def)

lemma chunks_empty: "chunks [] c = []"
  by (simp add: chunks_def py_range.simps)

lemma py_range_bounds:
  "0 < c \<Longrightarrow> j \<in> set (py_range i n c) \<Longrightarrow> i \<le> j \<and> j < n"
proof (induction i n c rule: py_range.induct)
  case (1 i stop step)
  show ?case
  proof (cases "i < stop")
    case True
    with 1(3,4) have "j = i \<or> j \<in> set (py_range (i + step) stop step)"
      by (subst (asm) py_range.simps) simp
    with 1(1)[OF conjI[OF 1(3) True] 1(3)] 1(3) True show ?thesis by auto
  next
    case False
    with 1(3,4) show ?thesis by (subst (asm) py_range.simps) simp
  qed
qed

lemma chunks_window:
  assumes "0 < c" "p \<in> set (chunks t c)"
  shows "p \<noteq> [] \<and> length p \<le> nat c"
proof -
  from assms obtain j where j: "j \<in> set (py_range 0 (int (length t)) c)"
      "p = slice t j (j + c)"
    by (auto simp: chunks_def)
  from py_range_bounds[OF assms(1) j(1)] have "0 \<le> j" "j < int (length t)" by simp_all
  then have "nat j < length t" by simp
  with \<open>0 \<le> j\<close> assms(1) j(2) show ?thesis by (simp add: slice_window)
qed

lemma chunks_bounded: "0 < c \<Longrightarrow> p \<in> set (chunks t c) \<Longrightarrow> length p \<le> nat c"
  using chunks_window by blast

text \<open>
  C1. For every text \<open>t\<close> and every chunk size \<open>c > 0\<close> the plain-text paginator splits
  \<open>t\<close> into consecutive windows of \<open>c\<close> characters: the pages concatenate to \<open>t\<close>, no page
  is empty or longer than \<open>c\<close>, every page but the last has length exactly \<open>c\<close>, and the
  empty text gives no page. This holds for \<open>_chunk_text\<close> with any positive size and for
  \<open>_read_txt_pages\<close>, whose size is fixed at 3000.
\<close>

theorem paginate_lossless:
  assumes "0 < c"
  shows "(\<exists>ps. chunk_text t c = Inr ps \<and> concat ps = t
               \<and> (\<forall>p \<in> set ps. p \<noteq> [] \<and> int (length p) \<le> c)
               \<and> (\<forall>p \<in> set (butlast ps). int (length p) = c))
         \<and> chunk_text [] c = Inr []
         \<and> (\<exists>ps. read_txt_pages (Inr t) = Inr ps \<and> concat ps = t
               \<and> (\<forall>p \<in> set ps. p \<noteq> [] \<and> length p \<le> 3000)
               \<and> (\<forall>p \<in> set (butlast ps). length p = 3000))
         \<and> read_txt_pages (Inr []) = Inr []"
proof (intro conjI)
  show "\<exists>ps. chunk_text t c = Inr ps \<and> concat ps = t
              \<and> (\<forall>p \<in> set ps. p \<noteq> [] \<and> int (length p) \<le> c)
              \<and> (\<forall>p \<in> set (butlast ps). int (length p) = c)"
  proof -
    have "p \<noteq> [] \<and> int (length p) \<le> c" if "p \<in> set (chunks t c)" for p
      using chunks_window[OF assms that] assms by linarith
    moreover have "int (length p) = c" if "p \<in> set (butlast (chunks t c))" for p
      using chunks_full[OF assms that] assms by simp
    ultimately show ?thesis
      using assms chunks_concat[of c t] by (auto simp: chunk_text_def)
  qed
  show "chunk_text [] c = Inr []"
    using assms by (simp add: chunk_text_def chunks_empty)
  show "\<exists>ps. read_txt_pages (Inr t) = Inr ps \<and> concat ps = t
              \<and> (\<forall>p \<in> set ps. p \<noteq> [] \<and> length p \<le> 3000)
              \<and> (\<forall>p \<in> set (butlast ps). length p = 3000)"
    using chunks_concat[of 3000 t] chunks_full[of 3000 _ t] chunks_window[of 3000 _ t]
    by (auto simp: read_txt_pages_def)
  show "read_txt_pages (Inr []) = Inr []"
    by (simp add: read_txt_pages_def chunks_empty)
qed

lemma chunks_abcde: "chunks ''abcde'' 2 = [''ab'', ''cd'', ''e'']"
  by (simp add: chunks_def py_range.simps slice_def clamp_index_def)

theorem paginate_lossless_witness:
  "(0::int) < 2
   \<and> chunk_text ''abcde'' 2 = Inr [''ab'', ''cd'', ''e'']
   \<and> (\<exists>ps. chunk_text ''abcde'' 2 = Inr ps \<and> concat ps = ''abcde''
          \<and> (\<forall>p \<in> set ps. p \<noteq> [] \<and> int (length p) \<le> 2)
          \<and> (\<forall>p \<in> set (butlast ps). int (length p) = 2))
   \<and> chunk_text [] 2 = Inr []"
  using paginate_lossless[of 2 "''abcde''"]
  by (simp add: chunk_text_def chunks_abcde)

section \<open>Search with wrap-around\<close>

lemma str_find_SomeD:
  "str_find s sub i = Some p \<Longrightarrow>
     i \<le> p \<and> occurs_at s sub p \<and> (\<forall>q. i \<le> q \<and> q < p \<longrightarrow> \<not> occurs_at s sub q)"
proof (induction s sub i rule: str_find.induct)
  case (1 s sub i)
  show ?case
  proof (cases "length s < i + length sub")
    case True
    with 1(2) show ?thesis by (subst (asm) str_find.simps) simp
  next
    case False
    show ?thesis
    proof (cases "take (length sub) (drop i s) = sub")
      case True
      with False 1(2) have "p = i" by (subst (asm) str_find.simps) simp
      with True False show ?thesis by (auto simp: occurs_at_def)
    next
      case no: False
      with False 1(2) have "str_find s sub (Suc i) = Some p"
        by (subst (asm) str_find.simps) simp
      from 1(1)[OF False no this]
      have ih: "Suc i \<le> p" "occurs_at s sub p"
        "\<And>q. Suc i \<le> q \<Longrightarrow> q < p \<Longrightarrow> \<not> occurs_at s sub q"
        by auto
      have "\<not> occurs_at s sub q" if "i \<le> q" "q < p" for q
      proof (cases "q = i")
        case True
        with no show ?thesis by (simp add: occurs_at_def)
      next
        case False
        with that have "Suc i \<le> q" by simp
        with ih(3) that show ?thesis by simp
      qed
      with ih(1,2) show ?thesis by auto
    qed
  qed
qed

lemma str_find_NoneD:
  "str_find s sub i = None \<Longrightarrow> i \<le> q \<Longrightarrow> \<not> occurs_at s sub q"
proof (induction s sub i rule: str_find.induct)
  case (1 s sub i)
  show ?case
  proof (cases "length s < i + length sub")
    case True
    with 1(3) show ?thesis by (simp add: occurs_at_def)
  next
    case False
    with 1(2) have no: "take (length sub) (drop i s) \<noteq> sub"
      by (subst (asm) str_find.simps) (simp split: if_splits)
    with False 1(2) have "str_find s sub (Suc i) = None"
      by (subst (asm) str_find.simps) simp
    from 1(1)[OF False no this] no 1(3) show ?thesis
      by (cases "q = i") (auto simp: occurs_at_def)
  qed
qed


lemma lower_text_Nil: "lower_text q = [] \<longleftrightarrow> q = []"
  by (cases q) (simp_all add: lower_text_def lower_cp_def)

lemma on_search_cases:
  assumes "query \<noteq> []"
  shows "on_search h query k =
           (case str_find (lower_text h) (lower_text query) (Suc k) of
              Some p \<Rightarrow> Found p (p + length (lower_text query))
            | None \<Rightarrow> (case str_find (lower_text h) (lower_text query) 0 of
                         Some p \<Rightarrow> Found p (p + length (lower_text query))
                       | None \<Rightarrow> NotFound))"
  using assms by (simp add: on_search_def Let_def split: option.splits)

text \<open>What the search does for every text: it finds the first occurrence of the
  lower-cased query in the lower-cased text strictly after the offset \<open>k\<close>; when there is
  none after \<open>k\<close> it finds the first occurrence from offset 0; it reports not-found only
  when there is no occurrence. The offsets are offsets into the lower-cased text.\<close>

lemma on_search_lowered:
  assumes "query \<noteq> []"
  shows "(on_search h query k = Found p e \<longleftrightarrow>
            e = p + length (lower_text query) \<and>
            occurs_at (lower_text h) (lower_text query) p \<and>
            ((k < p \<and> (\<forall>q. k < q \<and> q < p \<longrightarrow> \<not> occurs_at (lower_text h) (lower_text query) q))
             \<or> ((\<forall>q. k < q \<longrightarrow> \<not> occurs_at (lower_text h) (lower_text query) q)
                \<and> (\<forall>q. q < p \<longrightarrow> \<not> occurs_at (lower_text h) (lower_text query) q))))
       \<and> (on_search h query k = NotFound
            \<longleftrightarrow> (\<forall>q. \<not> occurs_at (lower_text h) (lower_text query) q))
       \<and> on_search h query k \<noteq> Rejected"
proof -
  let ?H = "lower_text h" and ?Q = "lower_text query"
  let ?occ = "occurs_at ?H ?Q"
  let ?R = "\<lambda>p. ?occ p \<and>
            ((k < p \<and> (\<forall>q. k < q \<and> q < p \<longrightarrow> \<not> ?occ q))
             \<or> ((\<forall>q. k < q \<longrightarrow> \<not> ?occ q) \<and> (\<forall>q. q < p \<longrightarrow> \<not> ?occ q)))"
  show ?thesis
  proof (cases "str_find ?H ?Q (Suc k)")
    case (Some p1)
    then have res: "on_search h query k = Found p1 (p1 + length ?Q)"
      using assms by (simp add: on_search_cases)
    from str_find_SomeD[OF Some]
    have p1: "k < p1" "?occ p1" "\<And>q. k < q \<Longrightarrow> q < p1 \<Longrightarrow> \<not> ?occ q"
      by auto
    have "?R p \<longleftrightarrow> p = p1"
    proof
      assume r: "?R p"
      then have "k < p" "\<forall>q. k < q \<and> q < p \<longrightarrow> \<not> ?occ q" "?occ p"
        using p1(1,2) by auto
      with p1 show "p = p1" by (meson linorder_neqE_nat)
    next
      assume "p = p1"
      with p1 show "?R p" by auto
    qed
    with res p1(2) show ?thesis by auto
  next
    case None
    note after = str_find_NoneD[OF None]
    show ?thesis
    proof (cases "str_find ?H ?Q 0")
      case (Some p0)
      with None have res: "on_search h query k = Found p0 (p0 + length ?Q)"
        using assms by (simp add: on_search_cases)
      from str_find_SomeD[OF Some]
      have p0: "?occ p0" "\<And>q. q < p0 \<Longrightarrow> \<not> ?occ q"
        by auto
      have no_after: "\<And>q. k < q \<Longrightarrow> \<not> ?occ q"
        using after by (simp add: Suc_le_eq)
      have "?R p \<longleftrightarrow> p = p0"
      proof
        assume r: "?R p"
        then have "?occ p" "\<forall>q. q < p \<longrightarrow> \<not> ?occ q"
          using no_after by auto
        with p0 show "p = p0" by (meson linorder_neqE_nat)
      next
        assume "p = p0"
        with p0 no_after show "?R p" by auto
      qed
      with res p0(1) show ?thesis by auto
    next
      case none0: None
      with None have res: "on_search h query k = NotFound"
        using assms by (simp add: on_search_cases)
      have "\<not> ?occ q" for q
        using str_find_NoneD[OF none0, of q] by simp
      with res show ?thesis by auto
    qed
  qed
qed

lemma on_search_empty_query: "on_search h [] k = Rejected"
  by (simp add: on_search_def)

text \<open>The examples of the specification, and one with capital letters.\<close>

lemma on_search_examples:
  "on_search (cps ''abcabc'') (cps ''bc'') 3 = Found 4 6
   \<and> on_search (cps ''abcabc'') (cps ''bc'') 4 = Found 1 3
   \<and> on_search (cps ''Hello WORLD hello'') (cps ''HELLO'') 0 = Found 12 17
   \<and> on_search (cps ''abcabc'') (cps ''x'') 0 = NotFound"
  by (simp add: on_search_def Let_def cps_def lower_text_def lower_cp_def str_find.simps)

text \<open>On the code points of a string of the model the two lower-casings agree.\<close>

lemma lower_text_cps: "lower_text (cps s) = cps (lower s)"
proof -
  have "lower_cp (of_char c) = [of_char (lower_char c)]" for c
  proof -
    have "(of_char c :: nat) \<noteq> 304"
      using nat_of_char_less_256[of c] by linarith
    then show ?thesis
      by (auto simp: lower_cp_def lower_char_def Let_def)
  qed
  then show ?thesis
    by (induction s) (simp_all add: lower_text_def cps_def lower_def)
qed

text \<open>Where no code point of the text is U+0130, lower-casing keeps every code point
  in its place, so an occurrence in the lower-cased text at \<open>p\<close> is a match of the query
  in the text itself at \<open>p\<close>, letter case aside.\<close>

lemma lower_text_plain:
  assumes "304 \<notin> set s"
  shows "lower_text s = map (\<lambda>n. hd (lower_cp n)) s"
  using assms by (induction s) (auto simp: lower_text_def lower_cp_def)

lemma occurs_at_plain:
  assumes "304 \<notin> set h" "304 \<notin> set query"
  shows "occurs_at (lower_text h) (lower_text query) p \<longleftrightarrow>
           p + length query \<le> length h
           \<and> lower_text (take (length query) (drop p h)) = lower_text query"
proof -
  have "304 \<notin> set (take (length query) (drop p h))"
    using assms(1) by (meson in_set_dropD in_set_takeD)
  then show ?thesis
    using assms by (simp add: occurs_at_def lower_text_plain take_map drop_map)
qed

text \<open>
  C5. The search looks for the lower-cased query in the lower-cased text and applies the
  offset it finds there to the text itself. With the text \<open>Istanbul\<close> written with
  U+0130, capital I with dot above, whose lower case is two code points, and the query
  \<open>STAN\<close> after offset 0, the handler moves to offset 2 and selects offsets 2 to 6, which
  read \<open>tanb\<close> and do not match the query, while the text matches the query at offset 1.
\<close>

theorem on_search_dotted_capital_i:
  "on_search dotted_istanbul (cps ''STAN'') 0 = Found 2 6
   \<and> take 4 (drop 2 dotted_istanbul) = cps ''tanb''
   \<and> lower_text (take 4 (drop 2 dotted_istanbul)) \<noteq> lower_text (cps ''STAN'')
   \<and> take 4 (drop 1 dotted_istanbul) = cps ''stan''
   \<and> lower_text (take 4 (drop 1 dotted_istanbul)) = lower_text (cps ''STAN'')
   \<and> length (lower_text dotted_istanbul) = 9 \<and> length dotted_istanbul = 8"
  by (simp add: on_search_def Let_def dotted_istanbul_def cps_def lower_text_def lower_cp_def
                str_find.simps)

section \<open>The worker thread resets the flag\<close>

text \<open>
  C10. Whatever the text and whatever the engine of the worker thread does (each of its
  three calls returns, raises an exception that is caught, or raises one that passes
  through), the service's \<open>is_speaking\<close> flag is false when \<open>_speak_thread\<close> ends.
\<close>

theorem speak_thread_resets_flag:
  "is_speaking (fst (speak_thread t text w)) = False"
  by (simp add: speak_thread_def Let_def split: prod.splits)

section \<open>Loading leaves a valid session\<close>

lemma update_display_pages [simp]: "pages (update_display p) = pages p"
  by (simp add: update_display_def Let_def)

lemma update_display_tts [simp]: "tts_service (update_display p) = tts_service p"
  by (simp add: update_display_def Let_def)

lemma update_display_idx:
  "pages p \<noteq> [] \<Longrightarrow>
   current_page_idx (update_display p)
     = max 0 (min (current_page_idx p) (int (length (pages p)) - 1))"
  by (simp add: update_display_def Let_def)

lemma update_display_valid:
  "valid_panel p \<Longrightarrow>
   update_display p =
     p\<lparr>text_ctrl := pages p ! nat (current_page_idx p),
       page_lbl := (current_page_idx p + 1, int (length (pages p))),
       prev_btn := (0 < current_page_idx p),
       next_btn := (current_page_idx p < int (length (pages p)) - 1)\<rparr>"
  by (simp add: update_display_def Let_def valid_panel_def max_def min_def)

lemma load_file_pages:
  "pages (load_file L f p) =
     (case read_pages L f of
        Inl e \<Rightarrow> [''Error loading file: '' @ msg e]
      | Inr ps \<Rightarrow> if ps = [] then [placeholder] else ps)"
  by (simp add: load_file_def Let_def split: sum.splits)

lemma load_file_idx: "current_page_idx (load_file L f p) = 0"
  by (auto simp: load_file_def Let_def update_display_def split: sum.splits)

lemma load_file_buttons:
  "prev_btn (load_file L f p) = has_previous (load_file L f p)
   \<and> next_btn (load_file L f p) = has_next (load_file L f p)"
  by (auto simp: load_file_def Let_def update_display_def has_previous_def has_next_def
           split: sum.splits)

lemma load_file_text_ctrl:
  "text_ctrl (load_file L f p) = hd (pages (load_file L f p))"
  by (auto simp: load_file_def Let_def update_display_def hd_conv_nth split: sum.splits)

text \<open>
  C3. After \<open>_load_file\<close>, on every path, the pages are not empty and the index is 0, so
  the index points into the pages. When the reader returns no pages, the single page is
  the placeholder \<open>(Empty Book or Extraction Failed)\<close>, it is the current page and the
  displayed text, and neither navigation flag nor button is on. A failed read gives the
  single page with the error message, an unrecognised extension the single page
  \<open>Unsupported file format.\<close>, and any other result is taken as the pages.
\<close>

theorem load_file_valid:
  "pages (load_file L f p) \<noteq> []
   \<and> current_page_idx (load_file L f p) = 0
   \<and> valid_panel (load_file L f p)
   \<and> (read_pages L f = Inr [] \<longrightarrow>
        pages (load_file L f p) = [placeholder]
        \<and> current_page (load_file L f p) = Inr placeholder
        \<and> text_ctrl (load_file L f p) = placeholder
        \<and> \<not> has_previous (load_file L f p) \<and> \<not> has_next (load_file L f p)
        \<and> \<not> prev_btn (load_file L f p) \<and> \<not> next_btn (load_file L f p))
   \<and> (\<forall>e. read_pages L f = Inl e \<longrightarrow>
        pages (load_file L f p) = [''Error loading file: '' @ msg e])
   \<and> (lower (ext f) \<notin> {''.txt'', ''.pdf'', ''.epub''} \<longrightarrow>
        pages (load_file L f p) = [''Unsupported file format.''])
   \<and> (\<forall>ps. read_pages L f = Inr ps \<and> ps \<noteq> [] \<longrightarrow> pages (load_file L f p) = ps)"
proof -
  let ?p = "load_file L f p"
  have ne: "pages ?p \<noteq> []"
    by (simp add: load_file_pages split: sum.splits)
  have idx: "current_page_idx ?p = 0" by (rule load_file_idx)
  have valid: "valid_panel ?p"
    using ne idx by (simp add: valid_panel_def)
  have empty: "pages ?p = [placeholder] \<and> current_page ?p = Inr placeholder
        \<and> text_ctrl ?p = placeholder
        \<and> \<not> has_previous ?p \<and> \<not> has_next ?p \<and> \<not> prev_btn ?p \<and> \<not> next_btn ?p"
    if "read_pages L f = Inr []"
  proof -
    from that have pg: "pages ?p = [placeholder]" by (simp add: load_file_pages)
    with idx load_file_buttons[of L f p] load_file_text_ctrl[of L f p] show ?thesis
      by (simp add: current_page_def getitem_def has_previous_def has_next_def)
  qed
  have unsupported: "pages ?p = [''Unsupported file format.'']"
    if "lower (ext f) \<notin> {''.txt'', ''.pdf'', ''.epub''}"
    using that by (simp add: load_file_pages read_pages_def Let_def)
  show ?thesis
    using ne idx valid empty unsupported by (simp add: load_file_pages)
qed


theorem load_file_valid_witness:
  "read_pages all_libs (epub_file \<lparr>title_meta = [], items = []\<rparr>) = Inr []
   \<and> pages (load_file all_libs (epub_file \<lparr>title_meta = [], items = []\<rparr>)
               (new_panel (tts_init True))) = [''(Empty Book or Extraction Failed)'']
   \<and> read_pages all_libs ((txt_file [])\<lparr>as_text := Inl (Exception ''No such file'')\<rparr>)
        = Inl (Exception ''No such file'')
   \<and> pages (load_file all_libs ((txt_file [])\<lparr>as_text := Inl (Exception ''No such file'')\<rparr>)
               (new_panel (tts_init True))) = [''Error loading file: No such file'']
   \<and> lower (ext ((txt_file ''abc'')\<lparr>ext := ''.mobi''\<rparr>)) \<notin> {''.txt'', ''.pdf'', ''.epub''}
   \<and> pages (load_file all_libs ((txt_file ''abc'')\<lparr>ext := ''.mobi''\<rparr>)
               (new_panel (tts_init True))) = [''Unsupported file format.'']
   \<and> read_pages all_libs (txt_file ''abc'') = Inr [''abc'']
   \<and> pages (load_file all_libs (txt_file ''abc'') (new_panel (tts_init True))) = [''abc'']"
proof -
  have a: "read_pages all_libs (epub_file \<lparr>title_meta = [], items = []\<rparr>) = Inr []"
    by (simp add: read_pages_def read_epub_pages_def epub_file_def all_libs_def
                  lower_def lower_char_def)
  have b: "read_pages all_libs ((txt_file [])\<lparr>as_text := Inl (Exception ''No such file'')\<rparr>)
        = Inl (Exception ''No such file'')"
    by (simp add: read_pages_def read_txt_pages_def txt_file_def lower_def lower_char_def)
  have c: "lower (ext ((txt_file ''abc'')\<lparr>ext := ''.mobi''\<rparr>)) \<notin> {''.txt'', ''.pdf'', ''.epub''}"
    by (simp add: lower_def lower_char_def)
  have d: "read_pages all_libs (txt_file ''abc'') = Inr [''abc'']"
    by (simp add: read_pages_def read_txt_pages_def txt_file_def lower_def lower_char_def
                  chunks_def py_range.simps slice_def clamp_index_def)
  show ?thesis
    using a b c d
      load_file_valid[of all_libs "epub_file \<lparr>title_meta = [], items = []\<rparr>"
                         "new_panel (tts_init True)"]
      load_file_valid[of all_libs "(txt_file [])\<lparr>as_text := Inl (Exception ''No such file'')\<rparr>"
                         "new_panel (tts_init True)"]
      load_file_valid[of all_libs "(txt_file ''abc'')\<lparr>ext := ''.mobi''\<rparr>"
                         "new_panel (tts_init True)"]
      load_file_valid[of all_libs "txt_file ''abc''" "new_panel (tts_init True)"]
    by (simp add: placeholder_def)
qed

section \<open>Walking through the pages\<close>

lemma on_next_page_step:
  assumes "valid_panel p" "has_next p"
  shows "current_page_idx (on_next_page p) = current_page_idx p + 1"
    and "pages (on_next_page p) = pages p"
    and "valid_panel (on_next_page p)"
  using assms
  by (auto simp: on_next_page_def has_next_def valid_panel_def update_display_def Let_def)

lemma on_prev_page_step:
  assumes "valid_panel p" "has_previous p"
  shows "current_page_idx (on_prev_page p) = current_page_idx p - 1"
    and "pages (on_prev_page p) = pages p"
    and "valid_panel (on_prev_page p)"
  using assms
  by (auto simp: on_prev_page_def has_previous_def valid_panel_def update_display_def Let_def)

lemma next_to_end_trace:
  assumes "valid_panel p"
  shows "map current_page_idx (next_to_end p)
           = map int [nat (current_page_idx p) ..< length (pages p)]
         \<and> valid_panel (last (next_to_end p))
         \<and> pages (last (next_to_end p)) = pages p
         \<and> current_page_idx (last (next_to_end p)) = int (length (pages p)) - 1"
  using assms
proof (induction p rule: next_to_end.induct)
  case (1 p)
  let ?i = "current_page_idx p" and ?n = "length (pages p)"
  from 1(2) have rng: "0 \<le> ?i" "?i < int ?n" by (simp_all add: valid_panel_def)
  show ?case
  proof (cases "has_next p")
    case True
    note step = on_next_page_step[OF 1(2) True]
    note ih = 1(1)[OF True step(3)]
    have unfold: "next_to_end p = p # next_to_end (on_next_page p)"
      using True by (subst next_to_end.simps) simp
    have ne: "next_to_end (on_next_page p) \<noteq> []"
      by (subst next_to_end.simps) simp
    have "nat (?i + 1) = Suc (nat ?i)" using rng by simp
    moreover have "nat ?i < ?n" using rng by simp
    ultimately have "[nat ?i ..< ?n] = nat ?i # [nat (?i + 1) ..< ?n]"
      by (simp add: upt_conv_Cons)
    with ih step(1,2) unfold ne rng show ?thesis by simp
  next
    case False
    then have "next_to_end p = [p]" by (subst next_to_end.simps) simp
    moreover from False rng have "?i = int ?n - 1" by (simp add: has_next_def)
    moreover from this rng have "?n = Suc (nat ?i)" by linarith
    then have "[nat ?i ..< ?n] = [nat ?i]"
      by (metis upt_rec lessI upt_eq_Nil_conv le_refl)
    ultimately show ?thesis using 1(2) rng by simp
  qed
qed


lemma prev_to_start_trace:
  assumes "valid_panel p"
  shows "map current_page_idx (prev_to_start p)
           = rev (map int [0 ..< Suc (nat (current_page_idx p))])
         \<and> pages (last (prev_to_start p)) = pages p
         \<and> current_page_idx (last (prev_to_start p)) = 0"
  using assms
proof (induction p rule: prev_to_start.induct)
  case (1 p)
  let ?i = "current_page_idx p"
  from 1(2) have rng: "0 \<le> ?i" by (simp add: valid_panel_def)
  show ?case
  proof (cases "has_previous p")
    case True
    note step = on_prev_page_step[OF 1(2) True]
    note ih = 1(1)[OF True step(3)]
    have unfold: "prev_to_start p = p # prev_to_start (on_prev_page p)"
      using True by (subst prev_to_start.simps) simp
    have ne: "prev_to_start (on_prev_page p) \<noteq> []"
      by (subst prev_to_start.simps) simp
    from True have "Suc (nat (?i - 1)) = nat ?i"
      by (simp add: has_previous_def)
    with ih step(1,2) unfold ne rng show ?thesis by simp
  next
    case False
    then have "prev_to_start p = [p]" by (subst prev_to_start.simps) simp
    moreover from False rng have "?i = 0" by (simp add: has_previous_def)
    ultimately show ?thesis by simp
  qed
qed

text \<open>
  C4. In a panel whose index points into its pages, Next at the last page and Prev at
  the first page leave the panel as it is; elsewhere they change the index by exactly 1
  and keep the pages. Starting at index 0, pressing Next until \<open>has_next\<close> is false
  passes through the indices \<open>0, 1, ..., n - 1\<close> in this order, each once, and pressing
  Prev from there until \<open>has_previous\<close> is false passes through them in reverse and ends
  at index 0.
\<close>

theorem navigation_walk:
  assumes "valid_panel p"
  shows "(\<not> has_next p \<longrightarrow> on_next_page p = p)
       \<and> (\<not> has_previous p \<longrightarrow> on_prev_page p = p)
       \<and> (has_next p \<longrightarrow> current_page_idx (on_next_page p) = current_page_idx p + 1
                        \<and> pages (on_next_page p) = pages p)
       \<and> (has_previous p \<longrightarrow> current_page_idx (on_prev_page p) = current_page_idx p - 1
                        \<and> pages (on_prev_page p) = pages p)
       \<and> (current_page_idx p = 0 \<longrightarrow>
            map current_page_idx (next_to_end p) = map int [0 ..< length (pages p)]
            \<and> \<not> has_next (last (next_to_end p))
            \<and> map current_page_idx (prev_to_start (last (next_to_end p)))
                = rev (map int [0 ..< length (pages p)])
            \<and> current_page_idx (last (prev_to_start (last (next_to_end p)))) = 0)"
proof -
  have noop: "(\<not> has_next p \<longrightarrow> on_next_page p = p) \<and> (\<not> has_previous p \<longrightarrow> on_prev_page p = p)"
    by (simp add: has_next_def has_previous_def on_next_page_def on_prev_page_def)
  have walk: "map current_page_idx (next_to_end p) = map int [0 ..< length (pages p)]
            \<and> \<not> has_next (last (next_to_end p))
            \<and> map current_page_idx (prev_to_start (last (next_to_end p)))
                = rev (map int [0 ..< length (pages p)])
            \<and> current_page_idx (last (prev_to_start (last (next_to_end p)))) = 0"
    if zero: "current_page_idx p = 0"
  proof -
    let ?e = "last (next_to_end p)"
    from next_to_end_trace[OF assms] zero
    have fwd: "map current_page_idx (next_to_end p) = map int [0 ..< length (pages p)]"
      and e: "valid_panel ?e" "pages ?e = pages p"
             "current_page_idx ?e = int (length (pages p)) - 1"
      by simp_all
    from assms have "Suc (nat (int (length (pages p)) - 1)) = length (pages p)"
      by (cases "pages p") (simp_all add: valid_panel_def)
    with prev_to_start_trace[OF e(1)] e(2,3) fwd show ?thesis
      by (simp add: has_next_def)
  qed
  show ?thesis
    using noop on_next_page_step(1,2)[OF assms] on_prev_page_step(1,2)[OF assms] walk
    by blast
qed

lemma lower_PDF: "lower ''.PDF'' = ''.pdf''"
  by code_simp

lemma three_pages_loaded:
  "pages three_pages = [''one'', ''two'', ''three''] \<and> current_page_idx three_pages = 0"
  by (simp add: three_pages_def load_file_pages load_file_idx read_pages_def pdf_file_def
                lower_PDF read_pdf_pages_def all_libs_def strip_def isspace_def)

theorem navigation_walk_witness:
  "valid_panel three_pages
   \<and> has_next three_pages \<and> \<not> has_previous three_pages
   \<and> current_page_idx three_pages = 0
   \<and> on_prev_page three_pages = three_pages
   \<and> current_page_idx (on_next_page three_pages) = 1
   \<and> map current_page_idx (next_to_end three_pages) = [0, 1, 2]
   \<and> map current_page_idx (prev_to_start (last (next_to_end three_pages))) = [2, 1, 0]
   \<and> valid_panel (last (next_to_end three_pages))
   \<and> \<not> has_next (last (next_to_end three_pages))
   \<and> has_previous (last (next_to_end three_pages))
   \<and> on_next_page (last (next_to_end three_pages)) = last (next_to_end three_pages)
   \<and> current_page_idx (on_prev_page (last (next_to_end three_pages))) = 1"
proof -
  let ?e = "last (next_to_end three_pages)"
  have v: "valid_panel three_pages"
    using three_pages_loaded by (simp add: valid_panel_def)
  have flags: "has_next three_pages" "\<not> has_previous three_pages"
    using three_pages_loaded by (simp_all add: has_next_def has_previous_def)
  have upt: "map int [0 ..< 3] = [0, 1, 2]"
    by (simp add: upt_rec)
  from next_to_end_trace[OF v] three_pages_loaded
  have e: "valid_panel ?e" "current_page_idx ?e = 2" "pages ?e = [''one'', ''two'', ''three'']"
    by simp_all
  then have eflags: "has_previous ?e"
    by (simp add: has_previous_def)
  show ?thesis
    using v flags e(1,2) eflags upt three_pages_loaded
      navigation_walk[OF v] navigation_walk[OF e(1)]
    by simp
qed

section \<open>Navigation and speech\<close>

lemma tts_wf_init: "tts_wf (tts_init ok)"
  by (simp add: tts_wf_def tts_init_def)

lemma tts_wf_stop: "tts_wf t \<Longrightarrow> tts_wf (stop t)"
  by (simp add: tts_wf_def stop_def)

lemma tts_wf_speak: "tts_wf t \<Longrightarrow> tts_wf (speak t text)"
  by (simp add: tts_wf_def speak_def stop_def Let_def)

lemma tts_wf_speak_thread: "tts_wf t \<Longrightarrow> tts_wf (fst (speak_thread t text w))"
  by (simp add: tts_wf_def speak_thread_def Let_def split: prod.splits)

lemma stop_silent: "tts_wf t \<Longrightarrow> \<not> is_speaking (stop t)"
  by (auto simp: tts_wf_def stop_def)

lemma update_display_lib_tts [simp]:
  "tts_service (snd (update_display_lib p)) = tts_service p"
  by (simp add: update_display_lib_def split: sum.splits)

text \<open>
  C9, as amended. In the page-view variant, whenever Next or Prev moves the index, the
  handler has called \<open>stop\<close> of the speech service, and the service, which never reports
  speaking without an engine, does not report speaking afterwards. In the library variant
  \<open>on_next\<close> and \<open>on_prev\<close> leave the speech service as it is.
\<close>

theorem navigation_stops_speech:
  assumes "tts_wf (tts_service p)"
  shows "(current_page_idx (on_next_page p) \<noteq> current_page_idx p \<longrightarrow>
            tts_service (on_next_page p) = stop (tts_service p)
            \<and> \<not> is_speaking (tts_service (on_next_page p)))
       \<and> (current_page_idx (on_prev_page p) \<noteq> current_page_idx p \<longrightarrow>
            tts_service (on_prev_page p) = stop (tts_service p)
            \<and> \<not> is_speaking (tts_service (on_prev_page p)))
       \<and> tts_service (snd (on_next p)) = tts_service p
       \<and> tts_service (snd (on_prev p)) = tts_service p"
proof -
  have nxt: "tts_service (on_next_page p) = stop (tts_service p)"
    if "current_page_idx (on_next_page p) \<noteq> current_page_idx p"
    using that by (cases "current_page_idx p < int (length (pages p)) - 1")
                  (simp_all add: on_next_page_def)
  have prv: "tts_service (on_prev_page p) = stop (tts_service p)"
    if "current_page_idx (on_prev_page p) \<noteq> current_page_idx p"
    using that by (cases "0 < current_page_idx p") (simp_all add: on_prev_page_def)
  have lib: "tts_service (snd (on_next p)) = tts_service p"
            "tts_service (snd (on_prev p)) = tts_service p"
    by (simp_all add: on_next_def on_prev_def)
  show ?thesis
    using nxt prv lib stop_silent[OF assms] by auto
qed

lemma three_pages_reading_state:
  "pages three_pages_reading = [''one'', ''two'', ''three'']
   \<and> current_page_idx three_pages_reading = 0
   \<and> tts_service three_pages_reading
       = \<lparr>engine = True, is_speaking = True, engine_stops = 0, threads = [''one'']\<rparr>"
  using three_pages_loaded
  by (simp add: three_pages_reading_def three_pages_def load_file_def update_display_def
                Let_def new_panel_def tts_init_def speak_def split: sum.splits)

theorem navigation_stops_speech_witness:
  "tts_wf (tts_service three_pages_reading)
   \<and> is_speaking (tts_service three_pages_reading)
   \<and> current_page_idx (on_next_page three_pages_reading) \<noteq> current_page_idx three_pages_reading
   \<and> \<not> is_speaking (tts_service (on_next_page three_pages_reading))
   \<and> engine_stops (tts_service (on_next_page three_pages_reading)) = 1
   \<and> current_page_idx (on_prev_page (on_next_page three_pages_reading))
       \<noteq> current_page_idx (on_next_page three_pages_reading)
   \<and> \<not> is_speaking (tts_service (on_prev_page (on_next_page three_pages_reading)))"
proof -
  let ?p = three_pages_reading
  have wf: "tts_wf (tts_service ?p)"
    using three_pages_reading_state by (simp add: tts_wf_def)
  have v: "valid_panel ?p" "has_next ?p"
    using three_pages_reading_state by (simp_all add: valid_panel_def has_next_def)
  note n = on_next_page_step[OF v]
  have moved: "current_page_idx (on_next_page ?p) \<noteq> current_page_idx ?p"
    using n(1) by simp
  have wf': "tts_wf (tts_service (on_next_page ?p))"
    using navigation_stops_speech[OF wf] moved tts_wf_stop[OF wf] by simp
  have hp: "has_previous (on_next_page ?p)"
    using n(1) three_pages_reading_state by (simp add: has_previous_def)
  have moved': "current_page_idx (on_prev_page (on_next_page ?p))
                 \<noteq> current_page_idx (on_next_page ?p)"
    using on_prev_page_step(1)[OF n(3) hp] by simp
  show ?thesis
    using wf moved moved' navigation_stops_speech[OF wf] navigation_stops_speech[OF wf']
      three_pages_reading_state
    by (simp add: stop_def)
qed

lemma lib_reading_state:
  "pages lib_reading = [''one'', ''two'']
   \<and> current_page_idx lib_reading = 0
   \<and> tts_service lib_reading
       = \<lparr>engine = True, is_speaking = True, engine_stops = 0, threads = [''one'']\<rparr>"
  by (simp add: lib_reading_def on_read_click_def open_book_def load_book_def
                update_display_lib_def extract_text_def read_pdf_def pdf_file_def lower_PDF
                all_libs_def strip_def isspace_def getitem_def new_panel_lib_def tts_init_def
                speak_lib_def Let_def)

text \<open>
  C9, counterexample. In the library variant, with two pages loaded and the first being
  read aloud, Next moves the index from 0 to 1 and the service still reports speaking;
  no engine was asked to stop.
\<close>

theorem library_navigation_keeps_speaking:
  "current_page_idx lib_reading = 0
   \<and> is_speaking (tts_service lib_reading)
   \<and> on_next lib_reading
       = (None, lib_reading\<lparr>current_page_idx := 1, text_ctrl := ''two'', page_lbl := (2, 2),
                             slider_value := 1, prev_btn := True, next_btn := False\<rparr>)
   \<and> current_page_idx (snd (on_next lib_reading)) = 1
   \<and> is_speaking (tts_service (snd (on_next lib_reading)))
   \<and> engine_stops (tts_service (snd (on_next lib_reading))) = 0"
  using lib_reading_state
  by (simp add: on_next_def update_display_lib_def getitem_def)

section \<open>PDF extraction\<close>

lemma strip_empty_iff: "strip s = [] \<longleftrightarrow> (\<forall>c \<in> set s. isspace c)"
proof -
  have "(\<forall>c \<in> set (dropWhile isspace s). isspace c) \<longleftrightarrow> (\<forall>c \<in> set s. isspace c)"
  proof
    assume a: "\<forall>c \<in> set (dropWhile isspace s). isspace c"
    have "dropWhile isspace s = []"
    proof (cases "dropWhile isspace s")
      case (Cons x xs)
      then have "\<not> isspace x" by (metis hd_dropWhile list.sel(1) list.distinct(1))
      with a Cons show ?thesis by simp
    qed simp
    then show "\<forall>c \<in> set s. isspace c" by (simp add: dropWhile_eq_Nil_conv)
  next
    assume "\<forall>c \<in> set s. isspace c"
    then show "\<forall>c \<in> set (dropWhile isspace s). isspace c"
      by (meson set_dropWhileD)
  qed
  then show ?thesis by (simp add: strip_def dropWhile_eq_Nil_conv)
qed

lemma pdf_loop_texts:
  "pdf_loop acc (map Inr texts) = Inr (acc @ filter (\<lambda>t. strip t \<noteq> []) texts)"
  by (induction texts arbitrary: acc) simp_all

lemma pdf_texts_filter:
  "pdf_texts (map Inr texts) = Inr (filter (\<lambda>t. strip t \<noteq> []) texts)"
  by (induction texts) simp_all

lemma read_pdf_pages_texts:
  "PdfReader L \<Longrightarrow>
   read_pdf_pages L (Inr (map Inr texts)) =
     (if filter (\<lambda>t. strip t \<noteq> []) texts = [] then [''No text found in PDF.'']
      else filter (\<lambda>t. strip t \<noteq> []) texts)"
  by (simp add: read_pdf_pages_def pdf_loop_texts)

lemma read_pdf_texts:
  "PdfReader L \<Longrightarrow> read_pdf L (Inr (map Inr texts)) = filter (\<lambda>t. strip t \<noteq> []) texts"
  by (simp add: read_pdf_def pdf_texts_filter)

lemma open_book_pages: "pages (snd (open_book L f p)) = extract_text L f"
  by (simp add: open_book_def load_book_def update_display_lib_def split: sum.splits)

text \<open>
  C7, as amended. When every physical page can be extracted, \<open>_read_pdf_pages\<close> of the
  page-view variant returns the texts of the pages that have text other than white
  space, in page order, and the single page \<open>No text found in PDF.\<close> when there is none;
  \<open>_read_pdf\<close> of the library variant returns the same texts, and so the empty sequence
  when there is none. Loading a PDF of one empty page and one page with text gives a
  session of exactly that one page in both variants.
\<close>

theorem pdf_pages_with_text:
  assumes "PdfReader L"
  shows "read_pdf_pages L (Inr (map Inr texts)) =
           (if filter (\<lambda>t. strip t \<noteq> []) texts = [] then [''No text found in PDF.'']
            else filter (\<lambda>t. strip t \<noteq> []) texts)
       \<and> read_pdf L (Inr (map Inr texts)) = filter (\<lambda>t. strip t \<noteq> []) texts
       \<and> (lower (ext f) = ''.pdf'' \<and> as_pdf f = Inr [Inr [], Inr txt] \<and> strip txt \<noteq> [] \<longrightarrow>
            pages (load_file L f p) = [txt] \<and> pages (snd (open_book L f q)) = [txt])"
proof -
  have "pages (load_file L f p) = [txt] \<and> pages (snd (open_book L f q)) = [txt]"
    if "lower (ext f) = ''.pdf''" "as_pdf f = Inr [Inr [], Inr txt]" "strip txt \<noteq> []"
  proof -
    have "strip [] = []" by (simp add: strip_def)
    with that read_pdf_pages_texts[OF assms, of "[[], txt]"] read_pdf_texts[OF assms, of "[[], txt]"]
    show ?thesis
      by (simp add: load_file_pages read_pages_def open_book_pages extract_text_def)
  qed
  with read_pdf_pages_texts[OF assms] read_pdf_texts[OF assms] show ?thesis
    by blast
qed

theorem pdf_pages_with_text_witness:
  "PdfReader all_libs
   \<and> lower (ext (pdf_file [Inr [], Inr ''text''])) = ''.pdf''
   \<and> as_pdf (pdf_file [Inr [], Inr ''text'']) = Inr [Inr [], Inr ''text'']
   \<and> strip ''text'' \<noteq> []
   \<and> pages (load_file all_libs (pdf_file [Inr [], Inr ''text'']) (new_panel (tts_init True)))
       = [''text'']
   \<and> pages (snd (open_book all_libs (pdf_file [Inr [], Inr ''text''])
                   (new_panel_lib (tts_init True)))) = [''text'']
   \<and> read_pdf_pages all_libs (Inr (map Inr [[], '' ''])) = [''No text found in PDF.'']"
proof -
  have a: "PdfReader all_libs" by (simp add: all_libs_def)
  have b: "lower (ext (pdf_file [Inr [], Inr ''text''])) = ''.pdf''"
    by (simp add: pdf_file_def lower_PDF)
  have c: "strip ''text'' \<noteq> []" "strip '' '' = []" "strip [] = []"
    by (simp_all add: strip_def isspace_def)
  show ?thesis
    using a b c
      pdf_pages_with_text[OF a, of "[[], ''text'']" "pdf_file [Inr [], Inr ''text'']" "''text''"
                              "new_panel (tts_init True)" "new_panel_lib (tts_init True)"]
      pdf_pages_with_text[OF a, of "[[], '' '']"]
    by (simp add: pdf_file_def)
qed

text \<open>
  C7, counterexample. In the library variant a PDF whose only page has no text is
  extracted to the empty sequence, and the session opened from it has no page.
\<close>

theorem library_pdf_without_text_is_empty:
  "read_pdf all_libs (Inr [Inr []]) = []
   \<and> pages (snd (open_book all_libs (pdf_file [Inr []]) (new_panel_lib (tts_init True)))) = []"
  by (simp add: open_book_pages extract_text_def read_pdf_def pdf_file_def lower_PDF
                all_libs_def strip_def)

section \<open>EPUB sections\<close>

lemma epub_loop_sections:
  "\<forall>it \<in> set its. \<not> item_raises it \<Longrightarrow>
   epub_loop acc its =
     Inr (acc @ concat (map (\<lambda>t. if length (strip t) \<le> 100 then []
                                  else if length t \<le> 3000 then [t]
                                  else chunks t 3000)
                            (document_texts its)))"
proof (induction acc its rule: epub_loop.induct)
  case (4 pages_text sec rest)
  then show ?case by (simp add: Let_def)
qed simp_all

lemma epub_loop_lib_sections:
  "\<forall>it \<in> set its. \<not> item_raises it \<Longrightarrow>
   epub_loop_lib acc its = Inr (acc @ filter (\<lambda>t. 200 < length t) (document_texts its))"
  by (induction acc its rule: epub_loop_lib.induct) simp_all

lemma read_epub_pages_sections:
  assumes "epub L" "BeautifulSoup L" "\<forall>it \<in> set (items b). \<not> item_raises it"
  shows "read_epub_pages L (Inr b) =
           (if title_meta b \<noteq> [] then [''Title: '' @ hd (title_meta b)] else [])
           @ concat (map (\<lambda>t. if length (strip t) \<le> 100 then []
                                else if length t \<le> 3000 then [t]
                                else chunks t 3000)
                         (document_texts (items b)))"
  using assms by (simp add: read_epub_pages_def Let_def epub_loop_sections)

lemma section_pages_bounded:
  "pg \<in> set (concat (map (\<lambda>t. if length (strip t) \<le> 100 then []
                                  else if length t \<le> 3000 then [t]
                                  else chunks t 3000) texts))
   \<Longrightarrow> length pg \<le> 3000"
  using chunks_bounded[of 3000 pg] by (auto split: if_splits)

lemma strip_unchanged:
  assumes "s \<noteq> []" "\<not> isspace (hd s)" "\<not> isspace (last s)"
  shows "strip s = s"
proof -
  have "dropWhile isspace s = s"
    using assms(2) by (simp add: dropWhile_eq_self_iff)
  moreover have "dropWhile isspace (rev s) = rev s"
    using assms(3) by (simp add: dropWhile_eq_self_iff hd_rev)
  ultimately show ?thesis by (simp add: strip_def)
qed

lemma strip_replicate:
  "\<not> isspace c \<Longrightarrow> strip (replicate n c) = replicate n c"
proof (cases "n = 0")
  case True
  then show ?thesis by (simp add: strip_def)
next
  case False
  assume "\<not> isspace c"
  with False show ?thesis by (simp add: strip_unchanged)
qed

lemma chunks_3001: "chunks (replicate 3001 c) 3000 = [replicate 3000 c, replicate 1 c]"
  by (simp add: chunks_def py_range.simps slice_def clamp_index_def)

lemma example_book_ok: "\<forall>it \<in> set (items example_book). \<not> item_raises it"
  by (simp add: example_book_def)

lemma example_book_texts:
  "document_texts (items example_book)
     = [replicate 150 (CHR ''a''), ''short'', replicate 3001 (CHR ''b'')]"
  by (simp add: example_book_def)

text \<open>
  C8, as amended. When no document item raises, \<open>_read_epub_pages\<close> of the page-view
  variant returns the title page, if the book has a title, followed by the pages of each
  document section in manifest order: no page for a section whose stripped text has at
  most 100 characters, the section itself when it has at most 3000 characters, and
  otherwise its windows of 3000 characters, which concatenate to the section and are all
  full but the last. The pages of different sections are never merged. \<open>_read_epub\<close> of
  the library variant returns the sections longer than 200 characters, each as one page
  whatever its length.
\<close>

theorem epub_sections_paged:
  assumes "epub L" "BeautifulSoup L" "\<forall>it \<in> set (items b). \<not> item_raises it"
  shows "read_epub_pages L (Inr b) =
           (if title_meta b \<noteq> [] then [''Title: '' @ hd (title_meta b)] else [])
           @ concat (map (\<lambda>t. if length (strip t) \<le> 100 then []
                                else if length t \<le> 3000 then [t]
                                else chunks t 3000)
                         (document_texts (items b)))
       \<and> concat (chunks t 3000) = t
       \<and> (\<forall>pg \<in> set (butlast (chunks t 3000)). length pg = 3000)
       \<and> (\<forall>pg \<in> set (chunks t 3000). length pg \<le> 3000)
       \<and> read_epub L (Inr b) = filter (\<lambda>t. 200 < length t) (document_texts (items b))"
proof -
  note read_epub_pages_sections[OF assms]
  moreover have "read_epub L (Inr b) = filter (\<lambda>t. 200 < length t) (document_texts (items b))"
    using assms by (simp add: read_epub_def epub_loop_lib_sections)
  moreover have "\<forall>pg \<in> set (butlast (chunks t 3000)). length pg = 3000"
    using chunks_full[of 3000 _ t] by simp
  moreover have "\<forall>pg \<in> set (chunks t 3000). length pg \<le> 3000"
    using chunks_bounded[of 3000 _ t] by simp
  ultimately show ?thesis
    using chunks_concat[of 3000 t] by simp
qed

theorem epub_sections_paged_witness:
  "epub all_libs \<and> BeautifulSoup all_libs
   \<and> list_all (\<lambda>it. \<not> item_raises it) (items example_book)
   \<and> read_epub_pages all_libs (Inr example_book)
       = [''Title: T'', replicate 150 (CHR ''a''),
          replicate 3000 (CHR ''b''), replicate 1 (CHR ''b'')]
   \<and> read_epub all_libs (Inr example_book) = [replicate 3001 (CHR ''b'')]"
proof -
  have a: "epub all_libs" "BeautifulSoup all_libs" by (simp_all add: all_libs_def)
  have s: "strip (replicate 150 (CHR ''a'')) = replicate 150 (CHR ''a'')"
          "strip (replicate 3001 (CHR ''b'')) = replicate 3001 (CHR ''b'')"
          "strip ''short'' = ''short''"
    by (simp_all add: strip_replicate isspace_def) (simp add: strip_def isspace_def)
  have t: "title_meta example_book = [''T'']" by (simp add: example_book_def)
  show ?thesis
    using a example_book_ok s t
      epub_sections_paged[OF a example_book_ok, of "replicate 3001 (CHR ''b'')"]
    by (simp add: example_book_texts chunks_3001 list_all_iff)
qed

text \<open>
  C8, counterexample. In the library variant a section of 3001 characters, longer than
  the chunk size of 3000, is kept as a single page of 3001 characters.
\<close>

theorem library_epub_section_not_split:
  "read_epub all_libs
     (Inr \<lparr>title_meta = [], items = [Document (Inr (replicate 3001 (CHR ''b'')))]\<rparr>)
     = [replicate 3001 (CHR ''b'')]
   \<and> length (replicate 3001 (CHR ''b'')) = 3001"
  by (simp add: read_epub_def all_libs_def)

section \<open>Page lengths\<close>

text \<open>
  C2, as amended. Every page of a session loaded from a text file that could be read
  has at most 3000 characters, and so has every page of a session loaded from an EPUB
  whose items all parse, apart from its title page. The pages of a session loaded from a
  PDF whose pages all extract, some with text, are the texts of those pages as
  extracted, whatever their length.
\<close>

theorem chunked_pages_bounded:
  "(lower (ext f) = ''.txt'' \<and> as_text f = Inr t \<longrightarrow>
      (\<forall>pg \<in> set (pages (load_file L f p)). length pg \<le> 3000))
   \<and> (lower (ext f) = ''.epub'' \<and> epub L \<and> BeautifulSoup L \<and> as_epub f = Inr b
        \<and> (\<forall>it \<in> set (items b). \<not> item_raises it) \<longrightarrow>
      (\<forall>pg \<in> set (pages (load_file L f p)).
         length pg \<le> 3000 \<or> (title_meta b \<noteq> [] \<and> pg = ''Title: '' @ hd (title_meta b))))
   \<and> (lower (ext f) = ''.pdf'' \<and> PdfReader L \<and> as_pdf f = Inr (map Inr texts)
        \<and> filter (\<lambda>t. strip t \<noteq> []) texts \<noteq> [] \<longrightarrow>
      pages (load_file L f p) = filter (\<lambda>t. strip t \<noteq> []) texts)"
proof (intro conjI impI)
  assume "lower (ext f) = ''.txt'' \<and> as_text f = Inr t"
  then have "read_pages L f = Inr (chunks t 3000)"
    by (simp add: read_pages_def read_txt_pages_def)
  then show "\<forall>pg \<in> set (pages (load_file L f p)). length pg \<le> 3000"
    using chunks_bounded[of 3000 _ t] by (auto simp: load_file_pages placeholder_def)
next
  assume a: "lower (ext f) = ''.epub'' \<and> epub L \<and> BeautifulSoup L \<and> as_epub f = Inr b
        \<and> (\<forall>it \<in> set (items b). \<not> item_raises it)"
  then have "read_pages L f = Inr (read_epub_pages L (Inr b))"
    by (simp add: read_pages_def)
  moreover from a read_epub_pages_sections[of L b]
  have "read_epub_pages L (Inr b) =
           (if title_meta b \<noteq> [] then [''Title: '' @ hd (title_meta b)] else [])
           @ concat (map (\<lambda>t. if length (strip t) \<le> 100 then []
                                else if length t \<le> 3000 then [t]
                                else chunks t 3000)
                         (document_texts (items b)))"
    by simp
  ultimately show "\<forall>pg \<in> set (pages (load_file L f p)).
         length pg \<le> 3000 \<or> (title_meta b \<noteq> [] \<and> pg = ''Title: '' @ hd (title_meta b))"
    using section_pages_bounded[of _ "document_texts (items b)"]
    by (auto simp: load_file_pages placeholder_def split: if_splits)
next
  assume "lower (ext f) = ''.pdf'' \<and> PdfReader L \<and> as_pdf f = Inr (map Inr texts)
        \<and> filter (\<lambda>t. strip t \<noteq> []) texts \<noteq> []"
  then show "pages (load_file L f p) = filter (\<lambda>t. strip t \<noteq> []) texts"
    by (simp add: load_file_pages read_pages_def read_pdf_pages_texts)
qed


theorem chunked_pages_bounded_witness:
  "lower (ext (txt_file ''abc'')) = ''.txt'' \<and> as_text (txt_file ''abc'') = Inr ''abc''
   \<and> list_all (\<lambda>pg. length pg \<le> 3000)
        (pages (load_file all_libs (txt_file ''abc'') (new_panel (tts_init True))))
   \<and> lower (ext (epub_file example_book)) = ''.epub''
   \<and> epub all_libs \<and> BeautifulSoup all_libs
   \<and> as_epub (epub_file example_book) = Inr example_book
   \<and> list_all (\<lambda>it. \<not> item_raises it) (items example_book)
   \<and> list_all (\<lambda>pg. length pg \<le> 3000 \<or> pg = ''Title: T'')
        (pages (load_file all_libs (epub_file example_book) (new_panel (tts_init True))))
   \<and> lower (ext (pdf_file [Inr ''one'', Inr [], Inr ''two''])) = ''.pdf''
   \<and> PdfReader all_libs
   \<and> pages (load_file all_libs (pdf_file [Inr ''one'', Inr [], Inr ''two''])
               (new_panel (tts_init True))) = [''one'', ''two'']"
proof -
  have a: "epub all_libs" "BeautifulSoup all_libs" "PdfReader all_libs"
    by (simp_all add: all_libs_def)
  have e: "lower (ext (txt_file ''abc'')) = ''.txt''"
          "lower (ext (epub_file example_book)) = ''.epub''"
          "lower (ext (pdf_file [Inr ''one'', Inr [], Inr ''two''])) = ''.pdf''"
    by (simp_all add: txt_file_def epub_file_def pdf_file_def lower_PDF)
       (simp_all add: lower_def lower_char_def)
  have s: "filter (\<lambda>t. strip t \<noteq> []) [''one'', [], ''two''] = [''one'', ''two'']"
    by (simp add: strip_def isspace_def)
  have t: "title_meta example_book = [''T'']" by (simp add: example_book_def)
  show ?thesis
    using a e s t example_book_ok
      chunked_pages_bounded[of "txt_file ''abc''" "''abc''" all_libs "new_panel (tts_init True)"]
      chunked_pages_bounded[of "epub_file example_book" _ all_libs "new_panel (tts_init True)"
                               example_book]
      chunked_pages_bounded[of "pdf_file [Inr ''one'', Inr [], Inr ''two'']" _ all_libs
                               "new_panel (tts_init True)" _ "[''one'', [], ''two'']"]
    by (simp add: txt_file_def epub_file_def pdf_file_def list_all_iff)
qed

text \<open>
  C2, counterexample. Loading a PDF whose only page has 3001 characters gives a session
  whose only page has 3001 characters, more than the chunk size of 3000.
\<close>

theorem pdf_page_exceeds_chunk_size:
  "pages (load_file all_libs (pdf_file [Inr (replicate 3001 (CHR ''a''))])
            (new_panel (tts_init True)))
     = [replicate 3001 (CHR ''a'')]
   \<and> length (replicate 3001 (CHR ''a'')) = 3001"
proof -
  have "strip (replicate 3001 (CHR ''a'')) \<noteq> []"
    by (simp add: strip_replicate isspace_def)
  then show ?thesis
    using read_pdf_pages_texts[of all_libs "[replicate 3001 (CHR ''a'')]"]
    by (simp add: load_file_pages read_pages_def pdf_file_def lower_PDF all_libs_def)
qed


end
